theory Spec2Isabelle
  imports Complex_Main
begin

section \<open>Python values used by speechrate.py\<close>

text \<open>
  The exceptions the two functions of \<^verbatim>\<open>speechrate.py\<close> can raise. All of them are
  Python built-ins; the module defines no exception class of its own.
\<close>

datatype error = ValueError | IndexError | ZeroDivisionError

text \<open>
  Strings are \<^typ>\<open>string\<close>, one \<^typ>\<open>char\<close> per code point below 256. Times are
  \<^typ>\<open>real\<close>: the rounding of Python's binary floats (and its \<^verbatim>\<open>inf\<close> and
  \<^verbatim>\<open>nan\<close>) is outside the model.
\<close>

subsection \<open>Sequencing of computations that may raise\<close>

definition bind_e :: "error + 'a \<Rightarrow> ('a \<Rightarrow> error + 'b) \<Rightarrow> error + 'b" where
  "bind_e m f = (case m of Inl e \<Rightarrow> Inl e | Inr x \<Rightarrow> f x)"

text \<open>A list comprehension whose element expression may raise: the first failure wins.\<close>

fun collect :: "('a \<Rightarrow> error + 'b) \<Rightarrow> 'a list \<Rightarrow> error + 'b list" where
  "collect f [] = Inr []"
| "collect f (x # xs) =
     (case f x of
        Inl e \<Rightarrow> Inl e
      | Inr y \<Rightarrow> (case collect f xs of Inl e \<Rightarrow> Inl e | Inr ys \<Rightarrow> Inr (y # ys)))"

subsection \<open>Slices\<close>

text \<open>
  \<^verbatim>\<open>xs[a:b]\<close>: a negative bound counts from the end, and both bounds are clamped to
  the list.
\<close>

definition clamp_index :: "nat \<Rightarrow> int \<Rightarrow> nat" where
  "clamp_index n i = (if i < 0 then nat (max (i + int n) 0) else min (nat i) n)"

definition slice_py :: "'a list \<Rightarrow> int \<Rightarrow> int \<Rightarrow> 'a list" where
  "slice_py xs a b =
     (let lo = clamp_index (length xs) a; hi = clamp_index (length xs) b
      in take (hi - lo) (drop lo xs))"

text \<open>\<^verbatim>\<open>xs.index(x)\<close> for an \<open>x\<close> that occurs in \<open>xs\<close>: the first position.\<close>

definition index_py :: "'a list \<Rightarrow> 'a \<Rightarrow> nat" where
  "index_py xs x = length (takeWhile (\<lambda>y. y \<noteq> x) xs)"

subsection \<open>String methods\<close>

text \<open>The characters below 256 for which \<^verbatim>\<open>str.isspace\<close> holds.\<close>

definition isspace :: "char \<Rightarrow> bool" where
  "isspace c \<longleftrightarrow>
     (let n = (of_char c :: nat)
      in (9 \<le> n \<and> n \<le> 13) \<or> (28 \<le> n \<and> n \<le> 32) \<or> n = 133 \<or> n = 160)"

definition strip :: "string \<Rightarrow> string" where
  "strip s = rev (dropWhile isspace (rev (dropWhile isspace s)))"

text \<open>\<^verbatim>\<open>s.split(" ", n)\<close>: cut at the first \<open>n\<close> single spaces.\<close>

fun split_space :: "nat \<Rightarrow> string \<Rightarrow> string list" where
  "split_space 0 s = [s]"
| "split_space (Suc n) s =
     (if CHR '' '' \<in> set s
      then takeWhile (\<lambda>c. c \<noteq> CHR '' '') s
             # split_space n (tl (dropWhile (\<lambda>c. c \<noteq> CHR '' '') s))
      else [s])"

text \<open>
  \<^verbatim>\<open>s.upper()\<close> on ASCII letters; every other character is left as it is. For the
  characters between 128 and 255 this does not change which labels are a prefix: their
  upper cases are not ASCII, except that of the sharp s, which is \<open>SS\<close>, and no break
  label contains \<open>SS\<close>.
\<close>

definition upper_char :: "char \<Rightarrow> char" where
  "upper_char c =
     (let n = (of_char c :: nat) in if 97 \<le> n \<and> n \<le> 122 then char_of (n - 32) else c)"

definition upper :: "string \<Rightarrow> string" where
  "upper s = map upper_char s"

definition startswith :: "string \<Rightarrow> string \<Rightarrow> bool" where
  "startswith s p \<longleftrightarrow> take (length p) s = p"

subsection \<open>float\<close>

text \<open>
  \<^verbatim>\<open>float(s)\<close> strips white space from both ends of \<open>s\<close> and reads what is left as a
  number, or raises ValueError. The reader of the stripped literal is the parameter
  \<open>lit\<close> of the model, so that the theorems hold for every literal syntax.
\<close>

definition float_py :: "(string \<Rightarrow> real option) \<Rightarrow> string \<Rightarrow> error + real" where
  "float_py lit s = (case lit (strip s) of None \<Rightarrow> Inl ValueError | Some x \<Rightarrow> Inr x)"

text \<open>
  A reader for plain decimal literals (a sign, digits, at most one point), used for the
  concrete inputs below; on these it agrees with Python.
\<close>

definition digit_of :: "char \<Rightarrow> nat option" where
  "digit_of c =
     (let n = (of_char c :: nat) in if 48 \<le> n \<and> n \<le> 57 then Some (n - 48) else None)"

fun digits_value :: "nat \<Rightarrow> string \<Rightarrow> nat option" where
  "digits_value acc [] = Some acc"
| "digits_value acc (c # cs) =
     (case digit_of c of None \<Rightarrow> None | Some d \<Rightarrow> digits_value (10 * acc + d) cs)"

definition unsigned_decimal :: "string \<Rightarrow> real option" where
  "unsigned_decimal s =
     (let ip = takeWhile (\<lambda>c. c \<noteq> CHR ''.'') s;
          fp = drop 1 (dropWhile (\<lambda>c. c \<noteq> CHR ''.'') s)
      in if ip = [] \<and> fp = [] then None
         else (case digits_value 0 (ip @ fp) of
                 None \<Rightarrow> None
               | Some n \<Rightarrow> Some (real n / 10 ^ length fp)))"

definition decimal :: "string \<Rightarrow> real option" where
  "decimal s =
     (case s of
        [] \<Rightarrow> None
      | c # r \<Rightarrow>
          if c = CHR ''-'' then map_option uminus (unsigned_decimal r)
          else if c = CHR ''+'' then unsigned_decimal r
          else unsigned_decimal s)"

section \<open>The module\<close>

definition BREAK_LABELS :: "string list" where
  "BREAK_LABELS =
     [''<SIL>'', ''<LAUGH>'', ''<IVER>'', ''<UNKNOWN>'', ''<VOCNOISE>'', ''<NOISE>'',
      ''{B_TRANS}'', ''{E_TRANS}'']"

text \<open>\<^verbatim>\<open>word.upper().startswith(BREAK_LABELS)\<close>\<close>

definition is_break :: "string \<Rightarrow> bool" where
  "is_break w \<longleftrightarrow> list_ex (startswith (upper w)) BREAK_LABELS"

record token =
  t :: real
  word :: string

subsection \<open>get_context\<close>

text \<open>
  Lines 92 to 101: the header is dropped when a line equal to \<^verbatim>\<open>"#"\<close>, or else one
  equal to \<^verbatim>\<open>"#\n"\<close>, occurs; \<open>header_pos\<close> is 0 when there is none, and the
  reference position is then reduced by \<open>header_pos + 1\<close> in every branch.
\<close>

definition skip_header :: "string list \<Rightarrow> int \<Rightarrow> string list \<times> int" where
  "skip_header lines ref_pos =
     (let (lines', header_pos) =
            (if ''#'' \<in> set lines
             then (let header_pos = index_py lines ''#''
                   in (drop (header_pos + 1) lines, header_pos))
             else if [CHR ''#'', CHR 0x0A] \<in> set lines
             then (let header_pos = index_py lines [CHR ''#'', CHR 0x0A]
                   in (drop (header_pos + 1) lines, header_pos))
             else (lines, 0))
      in (lines', ref_pos - int header_pos - 1))"

text \<open>\<^verbatim>\<open>s.strip().split(" ", 1)\<close>\<close>

definition fields :: "string \<Rightarrow> string list" where
  "fields s = split_space 1 (strip s)"

text \<open>
  One element of \<open>l_dat\<close> or \<open>r_dat\<close>: unpacking \<^verbatim>\<open>time, trans\<close> needs exactly two
  fields (ValueError), then \<^verbatim>\<open>float\<close> (ValueError), then
  \<^verbatim>\<open>trans.split(" ", 2)[1]\<close> (IndexError). The right window strips \<open>time\<close> first.
\<close>

definition label_of :: "string \<Rightarrow> error + string" where
  "label_of trans' =
     (case split_space 2 trans' of _ # w # _ \<Rightarrow> Inr w | _ \<Rightarrow> Inl IndexError)"

definition l_entry :: "(string \<Rightarrow> real option) \<Rightarrow> string list \<Rightarrow> error + token" where
  "l_entry lit fs =
     (case fs of
        [time, trans'] \<Rightarrow>
          bind_e (float_py lit time) (\<lambda>x.
          bind_e (label_of trans') (\<lambda>w. Inr \<lparr>t = x, word = w\<rparr>))
      | _ \<Rightarrow> Inl ValueError)"

definition r_entry :: "(string \<Rightarrow> real option) \<Rightarrow> string list \<Rightarrow> error + token" where
  "r_entry lit fs =
     (case fs of
        [time, trans'] \<Rightarrow>
          bind_e (float_py lit (strip time)) (\<lambda>x.
          bind_e (label_of trans') (\<lambda>w. Inr \<lparr>t = x, word = w\<rparr>))
      | _ \<Rightarrow> Inl ValueError)"

text \<open>
  The loop of lines 134 to 141 over the reversed tail of \<open>l_dat\<close>: the distance is
  appended first, the break label tested after.
\<close>

fun l_walk :: "real \<Rightarrow> token list \<Rightarrow> real list" where
  "l_walk start_time [] = []"
| "l_walk start_time (tok # rest) =
     (start_time - t tok) # (if is_break (word tok) then [] else l_walk start_time rest)"

text \<open>The loop of lines 157 to 164: the break label is tested first.\<close>

fun r_walk :: "real \<Rightarrow> token list \<Rightarrow> real list" where
  "r_walk end_time [] = []"
| "r_walk end_time (tok # rest) =
     (if is_break (word tok) then [] else (t tok - end_time) # r_walk end_time rest)"

text \<open>
  Lines 111 to 166, on the lines and the reference position left by lines 92 to 101. The
  parameter \<open>span\<close> of the source is \<open>span'\<close> here and its variable \<open>trans\<close> is
  \<open>trans'\<close>: the plain names are constants of HOL.
\<close>

definition left_window :: "(string \<Rightarrow> real option) \<Rightarrow> string list \<Rightarrow> int \<Rightarrow> int \<Rightarrow> error + real list" where
  "left_window lit lines ref_pos span' =
     (let l_start = max 0 (ref_pos - span' - 2);
          l_win = map fields (slice_py lines l_start ref_pos)
      in if l_win \<noteq> []
         then bind_e (collect (l_entry lit) l_win) (\<lambda>l_dat.
                Inr (l_walk (t (last l_dat)) (rev (drop 1 l_dat))))
         else Inr [])"

definition right_window :: "(string \<Rightarrow> real option) \<Rightarrow> string list \<Rightarrow> int \<Rightarrow> int \<Rightarrow> error + real list" where
  "right_window lit lines ref_pos span' =
     (let r_end = min (int (length lines)) (ref_pos + span' + 1);
          r_win = map fields (slice_py lines ref_pos r_end)
      in bind_e (collect (r_entry lit) r_win) (\<lambda>r_dat.
           case r_dat of
             [] \<Rightarrow> Inl IndexError
           | ref # rest \<Rightarrow> Inr (r_walk (t ref) rest)))"

definition windows :: "(string \<Rightarrow> real option) \<Rightarrow> string list \<Rightarrow> int \<Rightarrow> int \<Rightarrow> error + real list \<times> real list" where
  "windows lit lines ref_pos span' =
     bind_e (left_window lit lines ref_pos span') (\<lambda>l_dist.
     bind_e (right_window lit lines ref_pos span') (\<lambda>r_dist.
       Inr (drop 1 l_dist, r_dist)))"

definition get_context :: "(string \<Rightarrow> real option) \<Rightarrow> string list \<Rightarrow> int \<Rightarrow> int \<Rightarrow> error + real list \<times> real list" where
  "get_context lit lines ref_pos span' =
     (let (lines', ref_pos') = skip_header lines ref_pos
      in windows lit lines' ref_pos' span')"

subsection \<open>get_speechrate\<close>

text \<open>\<^verbatim>\<open>max(xs)\<close>: ValueError on the empty list, else the first greatest element.\<close>

definition max_py :: "real list \<Rightarrow> error + real" where
  "max_py xs =
     (case xs of
        [] \<Rightarrow> Inl ValueError
      | x # rest \<Rightarrow> Inr (fold (\<lambda>y m. if m < y then y else m) rest x))"

definition div_py :: "real \<Rightarrow> nat \<Rightarrow> error + real" where
  "div_py x n = (if n = 0 then Inl ZeroDivisionError else Inr (x / real n))"

text \<open>The result \<open>Inr None\<close> is Python's \<^verbatim>\<open>None\<close>.\<close>

definition get_speechrate :: "real list \<Rightarrow> real list \<Rightarrow> error + real option" where
  "get_speechrate l_dist r_dist =
     (if l_dist \<noteq> [] \<and> r_dist \<noteq> []
      then bind_e (max_py l_dist) (\<lambda>a.
           bind_e (max_py r_dist) (\<lambda>b.
           bind_e (div_py (a + b) (length l_dist + length r_dist)) (\<lambda>d. Inr (Some d))))
      else if r_dist \<noteq> [] \<and> \<not> l_dist \<noteq> []
      then bind_e (max_py r_dist) (\<lambda>b.
           bind_e (div_py b (length r_dist)) (\<lambda>d. Inr (Some d)))
      else if l_dist \<noteq> []
      then bind_e (max_py l_dist) (\<lambda>a.
           bind_e (div_py a (length l_dist)) (\<lambda>d. Inr (Some d)))
      else Inr None)"

section \<open>Properties of inputs\<close>

text \<open>
  A valid reference position: an index of \<open>lines\<close> that, when \<open>lines\<close> has a header
  row (the one \<open>skip_header\<close> finds), lies after it.
\<close>

definition valid_ref :: "string list \<Rightarrow> int \<Rightarrow> bool" where
  "valid_ref lines ref_pos \<longleftrightarrow>
     ref_pos < int (length lines) \<and>
     (if ''#'' \<in> set lines then int (index_py lines ''#'') < ref_pos
      else if [CHR ''#'', CHR 0x0A] \<in> set lines
      then int (index_py lines [CHR ''#'', CHR 0x0A]) < ref_pos
      else 0 \<le> ref_pos)"

text \<open>
  A well-formed line, as \<open>get_context\<close> needs it: after stripping there is a space, the
  text before the first space reads as a float, and the text after it has a space again
  (so that \<^verbatim>\<open>trans.split(" ", 2)\<close> has an element 1).
\<close>

definition well_formed :: "(string \<Rightarrow> real option) \<Rightarrow> string \<Rightarrow> bool" where
  "well_formed lit s \<longleftrightarrow>
     (let u = strip s;
          time = takeWhile (\<lambda>c. c \<noteq> CHR '' '') u;
          rest = tl (dropWhile (\<lambda>c. c \<noteq> CHR '' '') u)
      in CHR '' '' \<in> set u \<and> lit (strip time) \<noteq> None \<and> CHR '' '' \<in> set rest)"



text \<open>A line that parses and whose label starts with a break label.\<close>

definition carries_break :: "(string \<Rightarrow> real option) \<Rightarrow> string \<Rightarrow> bool" where
  "carries_break lit s \<longleftrightarrow>
     (case l_entry lit (fields s) of Inl _ \<Rightarrow> False | Inr tok \<Rightarrow> is_break (word tok))"


section \<open>The rate calculator\<close>

lemma fold_max_eq_Max:
  "fold (\<lambda>y m. if m < y then y else m) xs (x::real) = Max (set (x # xs))"
proof -
  have "(\<lambda>y m. if m < y then y else m) = (max :: real \<Rightarrow> real \<Rightarrow> real)"
    by (intro ext) (simp add: max_def)
  then show ?thesis
    by (simp only: Max.set_eq_fold)
qed

lemma max_py_nonempty: "xs \<noteq> [] \<Longrightarrow> max_py xs = Inr (Max (set xs))"
  by (cases xs) (simp_all add: max_py_def fold_max_eq_Max)

section \<open>Auxiliary facts about the extractor\<close>

lemma bind_e_Inr_iff:
  "bind_e m f = Inr y \<longleftrightarrow> (\<exists>x. m = Inr x \<and> f x = Inr y)"
  by (cases m) (simp_all add: bind_e_def)

lemma bind_e_Inl_iff:
  "bind_e m f = Inl e \<longleftrightarrow> m = Inl e \<or> (\<exists>x. m = Inr x \<and> f x = Inl e)"
  by (cases m) (simp_all add: bind_e_def)

lemma collect_Inr:
  "collect f xs = Inr ys \<Longrightarrow> list_all2 (\<lambda>x y. f x = Inr y) xs ys"
proof (induction xs arbitrary: ys)
  case Nil
  then show ?case by simp
next
  case (Cons x xs)
  then show ?case
    by (auto split: sum.splits)
qed

lemma collect_length: "collect f xs = Inr ys \<Longrightarrow> length ys = length xs"
  by (drule collect_Inr) (simp add: list_all2_lengthD)



lemma length_l_walk: "length (l_walk st ts) \<le> length ts"
  by (induction ts) simp_all

lemma length_r_walk: "length (r_walk et ts) \<le> length ts"
  by (induction ts) simp_all

lemma clamp_index_le: "clamp_index n i \<le> n"
  unfolding clamp_index_def by (cases "i < 0") auto

lemma length_slice_py:
  "length (slice_py xs a b) = clamp_index (length xs) b - clamp_index (length xs) a"
  using clamp_index_le [of "length xs" b]
  by (simp add: slice_py_def Let_def)

lemma windows_Inr:
  "windows lit ls p span' = Inr (l, r) \<longleftrightarrow>
     (\<exists>ld. left_window lit ls p span' = Inr ld \<and> right_window lit ls p span' = Inr r \<and> l = drop 1 ld)"
  by (auto simp: windows_def bind_e_Inr_iff)

lemma left_window_length:
  assumes "left_window lit ls p span' = Inr ld"
  shows "length ld \<le> length (slice_py ls (max 0 (p - span' - 2)) p) - 1"
proof (cases "slice_py ls (max 0 (p - span' - 2)) p = []")
  case True
  with assms show ?thesis by (simp add: left_window_def Let_def)
next
  case False
  with assms obtain l_dat where
    c: "collect (l_entry lit) (map fields (slice_py ls (max 0 (p - span' - 2)) p)) = Inr l_dat"
    and ld: "ld = l_walk (t (last l_dat)) (rev (drop 1 l_dat))"
    by (auto simp: left_window_def Let_def bind_e_Inr_iff)
  from collect_length [OF c] have "length l_dat = length (slice_py ls (max 0 (p - span' - 2)) p)"
    by simp
  with length_l_walk [of "t (last l_dat)" "rev (drop 1 l_dat)"] ld show ?thesis by simp
qed

lemma right_window_Inr:
  "right_window lit ls p span' = Inr r \<longleftrightarrow>
     (\<exists>ref rest.
        collect (r_entry lit)
          (map fields (slice_py ls p (min (int (length ls)) (p + span' + 1)))) = Inr (ref # rest)
        \<and> r = r_walk (t ref) rest)"
proof (cases "collect (r_entry lit)
          (map fields (slice_py ls p (min (int (length ls)) (p + span' + 1))))")
  case (Inl e)
  then show ?thesis by (simp add: right_window_def Let_def bind_e_def)
next
  case (Inr r_dat)
  then show ?thesis
    by (cases r_dat) (auto simp: right_window_def Let_def bind_e_def)
qed

lemma right_window_length:
  assumes "right_window lit ls p span' = Inr r"
  shows "Suc (length r) \<le> length (slice_py ls p (min (int (length ls)) (p + span' + 1)))"
proof -
  from assms obtain ref rest where
    c: "collect (r_entry lit) (map fields (slice_py ls p (min (int (length ls)) (p + span' + 1)))) = Inr (ref # rest)"
    and r: "r = r_walk (t ref) rest"
    by (auto simp: right_window_Inr)
  from collect_length [OF c] length_r_walk [of "t ref" rest] r show ?thesis by simp
qed

lemma clamp_index_nonneg: "0 \<le> i \<Longrightarrow> clamp_index n i = min (nat i) n"
  by (simp add: clamp_index_def)

lemma clamp_index_minus_one: "clamp_index n (- 1) = n - 1"
  by (simp add: clamp_index_def)

lemma left_span_bound:
  "0 \<le> span' \<Longrightarrow> 0 \<le> p \<Longrightarrow>
     int (min (nat p) n - min (nat (max 0 (p - span' - 2))) n) \<le> span' + 2"
  by arith

lemma right_span_bound:
  "0 \<le> span' \<Longrightarrow> 0 \<le> p \<Longrightarrow>
     int (min (nat (min (int n) (p + span' + 1))) n - min (nat p) n) \<le> span' + 1"
  by arith

lemma windows_length:
  assumes "0 \<le> span'" and "- 1 \<le> p" and "windows lit ls p span' = Inr (l, r)"
  shows "int (length l) \<le> span' \<and> int (length r) \<le> span'"
proof -
  from assms(3) obtain ld where
    lw: "left_window lit ls p span' = Inr ld" and rw: "right_window lit ls p span' = Inr r"
    and l: "l = drop 1 ld"
    by (auto simp: windows_Inr)
  define n where "n = length ls"
  define lo where "lo = max 0 (p - span' - 2)"
  define hi where "hi = min (int n) (p + span' + 1)"
  have L: "length ld \<le> (clamp_index n p - clamp_index n lo) - 1"
    using left_window_length [OF lw] by (simp add: length_slice_py n_def lo_def)
  have R: "Suc (length r) \<le> clamp_index n hi - clamp_index n p"
    using right_window_length [OF rw] by (simp add: length_slice_py n_def hi_def)
  have ll: "length l = length ld - 1" using l by simp
  have lo0: "0 \<le> lo" by (simp add: lo_def)
  show ?thesis
  proof (cases "0 \<le> p")
    case True
    have hi0: "0 \<le> hi" using True assms(1) by (simp add: hi_def)
    have "int (clamp_index n p - clamp_index n lo) \<le> span' + 2"
      using left_span_bound [OF assms(1) True, of n]
      by (simp add: clamp_index_nonneg True lo0 lo_def)
    with L ll assms(1) have 1: "int (length l) \<le> span'" by arith
    have "int (clamp_index n hi - clamp_index n p) \<le> span' + 1"
      using right_span_bound [OF assms(1) True, of n] hi0
      by (simp add: clamp_index_nonneg True hi_def)
    with R have 2: "int (length r) \<le> span'" by arith
    from 1 2 show ?thesis by simp
  next
    case False
    with assms(2) have p: "p = - 1" by simp
    have cp: "clamp_index n p = n - 1" using p by (simp add: clamp_index_minus_one)
    have hi: "hi = min (int n) span'" by (simp add: hi_def p)
    then have "0 \<le> hi" using assms(1) by simp
    then have ch: "clamp_index n hi = min (nat hi) n" by (rule clamp_index_nonneg)
    from R cp ch hi assms(1) have n: "int n \<le> span'" and r0: "length r = 0" by arith+
    have "lo = 0" using p assms(1) by (simp add: lo_def)
    then have "clamp_index n lo = 0" by (simp add: clamp_index_def)
    with L cp ll n assms(1) have "int (length l) \<le> span'" by arith
    with r0 assms(1) show ?thesis by simp
  qed
qed

lemma dropWhile_rev_stable:
  assumes "u = [] \<or> \<not> P (hd u)"
  shows "dropWhile P (rev (dropWhile P (rev u))) = rev (dropWhile P (rev u))"
proof (cases u)
  case Nil
  then show ?thesis by simp
next
  case (Cons y ys)
  with assms have ny: "\<not> P y" by simp
  have "rev (dropWhile P (rev (y # ys))) = y # rev (dropWhile P (rev ys))"
    using ny by (simp add: dropWhile_append)
  then show ?thesis using ny Cons by simp
qed

lemma strip_idem: "strip (strip s) = strip s"
proof -
  have "dropWhile isspace s = [] \<or> \<not> isspace (hd (dropWhile isspace s))"
    using hd_dropWhile [of isspace s] by blast
  from dropWhile_rev_stable [of "dropWhile isspace s" isspace, OF this] show ?thesis
    by (simp add: strip_def)
qed

lemma r_entry_eq: "r_entry lit fs = l_entry lit fs"
  by (simp add: r_entry_def l_entry_def float_py_def strip_idem split: list.splits)












lemma left_window_Inr:
  "left_window lit ls p span' = Inr ld \<longleftrightarrow>
     (slice_py ls (max 0 (p - span' - 2)) p = [] \<and> ld = []) \<or>
     (\<exists>l_dat. slice_py ls (max 0 (p - span' - 2)) p \<noteq> [] \<and>
        collect (l_entry lit) (map fields (slice_py ls (max 0 (p - span' - 2)) p)) = Inr l_dat \<and>
        ld = l_walk (t (last l_dat)) (rev (drop 1 l_dat)))"
  by (auto simp: left_window_def Let_def bind_e_Inr_iff)




lemma get_context_windows:
  "get_context lit lines ref_pos span' =
     windows lit (fst (skip_header lines ref_pos)) (snd (skip_header lines ref_pos)) span'"
  by (simp add: get_context_def split: prod.splits)

lemma valid_ref_rebased: "valid_ref lines ref_pos \<Longrightarrow> - 1 \<le> snd (skip_header lines ref_pos)"
  by (auto simp: valid_ref_def skip_header_def Let_def split: if_splits)

subsection \<open>Parsing of one line, and malformed lines\<close>

















subsection \<open>Well-formed lines\<close>









subsection \<open>The header and the window edges\<close>

lemma index_py_first: "x \<notin> set hdr \<Longrightarrow> index_py (hdr @ x # post) x = length hdr"
  by (induction hdr) (auto simp: index_py_def)

lemma skip_header_no_header:
  "''#'' \<notin> set lines \<Longrightarrow> [CHR ''#'', CHR 0x0A] \<notin> set lines \<Longrightarrow>
     skip_header lines ref_pos = (lines, ref_pos - 1)"
  by (simp add: skip_header_def)

lemma windows_span_zero:
  "0 \<le> p \<Longrightarrow> windows lit ls p 0 = Inr (l, r) \<Longrightarrow> l = [] \<and> r = []"
  using windows_length [of 0 p lit ls l r] by simp

lemma windows_first_token:
  assumes "0 \<le> span'" and "windows lit ls 0 span' = Inr (l, r)"
  shows "l = []"
proof -
  from assms(2) obtain ld where lw: "left_window lit ls 0 span' = Inr ld" and l: "l = drop 1 ld"
    unfolding windows_Inr by blast
  have "slice_py ls (max 0 (0 - span' - 2)) 0 = []"
    by (simp add: slice_py_def clamp_index_def)
  with lw have "ld = []" by (simp add: left_window_def)
  with l show ?thesis by simp
qed

lemma windows_last_token:
  assumes "ls \<noteq> []" and "windows lit ls (int (length ls) - 1) span' = Inr (l, r)"
  shows "r = []"
proof -
  let ?p = "int (length ls) - 1"
  let ?c = "clamp_index (length ls) (min (int (length ls)) (?p + span' + 1))"
  from assms(2) have rw: "right_window lit ls ?p span' = Inr r"
    unfolding windows_Inr by blast
  have p0: "0 \<le> ?p" using assms(1) by (cases ls) simp_all
  have cp: "clamp_index (length ls) ?p = length ls - 1"
    using p0 by (simp add: clamp_index_nonneg)
  have "Suc (length r) \<le> ?c - (length ls - 1)"
    using right_window_length [OF rw] unfolding length_slice_py cp .
  moreover have "?c \<le> length ls" by (rule clamp_index_le)
  ultimately have "length r = 0" by arith
  then show ?thesis by simp
qed

lemma collect_nth:
  "collect f xs = Inr ys \<Longrightarrow> i < length xs \<Longrightarrow> f (xs ! i) = Inr (ys ! i)"
  by (drule collect_Inr) (simp add: list_all2_conv_all_nth)

lemma windows_break_after:
  assumes "0 \<le> p" and "nat p + 1 < length ls"
    and "carries_break lit (ls ! (nat p + 1))"
    and "windows lit ls p span' = Inr (l, r)"
  shows "r = []"
proof -
  let ?sl = "slice_py ls p (min (int (length ls)) (p + span' + 1))"
  from assms(4) have "right_window lit ls p span' = Inr r"
    unfolding windows_Inr by blast
  then obtain ref rest where
    c: "collect (l_entry lit) (map fields ?sl) = Inr (ref # rest)"
    and r: "r = r_walk (t ref) rest"
    unfolding right_window_Inr r_entry_eq [abs_def] by blast
  show ?thesis
  proof (cases rest)
    case Nil
    with r show ?thesis by simp
  next
    case (Cons tok rest')
    from collect_length [OF c] Cons have len: "1 < length ?sl" by simp
    have lo: "clamp_index (length ls) p = nat p"
      using assms(1,2) by (simp add: clamp_index_nonneg)
    have "?sl ! 1 = ls ! (nat p + 1)"
      using len assms(2) unfolding slice_py_def Let_def lo length_slice_py
      by (simp add: nth_take)
    moreover have "l_entry lit (map fields ?sl ! 1) = Inr ((ref # rest) ! 1)"
      using collect_nth [OF c, of 1] len by simp
    ultimately have "l_entry lit (fields (ls ! (nat p + 1))) = Inr tok"
      using len Cons by simp
    with assms(3) have "is_break (word tok)" by (simp add: carries_break_def)
    with r Cons show ?thesis by simp
  qed
qed

lemma windows_break_before:
  assumes "1 \<le> p" and "p \<le> int (length ls)"
    and "carries_break lit (ls ! (nat p - 1))"
    and "windows lit ls p span' = Inr (l, r)"
  shows "l = []"
proof -
  let ?sl = "slice_py ls (max 0 (p - span' - 2)) p"
  from assms(4) obtain ld where lw: "left_window lit ls p span' = Inr ld" and l: "l = drop 1 ld"
    unfolding windows_Inr by blast
  show ?thesis
  proof (cases "?sl = []")
    case True
    with lw l show ?thesis by (simp add: left_window_Inr)
  next
    case False
    with lw obtain l_dat where
      c: "collect (l_entry lit) (map fields ?sl) = Inr l_dat"
      and ld: "ld = l_walk (t (last l_dat)) (rev (drop 1 l_dat))"
      unfolding left_window_Inr by blast
    have len: "length l_dat = length ?sl" using collect_length [OF c] by simp
    show ?thesis
    proof (cases "length l_dat \<le> 1")
      case True
      then have "drop 1 l_dat = []" by simp
      with ld l show ?thesis by simp
    next
      case long: False
      then have ne: "l_dat \<noteq> []" by auto
      have hi: "clamp_index (length ls) p = nat p"
        using assms(1,2) by (simp add: clamp_index_nonneg)
      define m where "m = clamp_index (length ls) (max 0 (p - span' - 2))"
      have sl: "?sl = take (nat p - m) (drop m ls)"
        by (simp add: slice_py_def Let_def hi m_def)
      have k: "length ?sl = nat p - m" by (simp add: length_slice_py hi m_def)
      have "length ?sl \<noteq> 0" using False by simp
      with k have mp: "m < nat p" by arith
      have "last ?sl = ?sl ! (length ?sl - 1)" using False by (simp add: last_conv_nth)
      also have "\<dots> = ls ! (nat p - 1)"
        unfolding k unfolding sl using mp assms(2) by (simp add: nth_take)
      finally have lastsl: "last ?sl = ls ! (nat p - 1)" .
      have "l_entry lit (map fields ?sl ! (length ?sl - 1)) = Inr (l_dat ! (length ?sl - 1))"
        using collect_nth [OF c, of "length ?sl - 1"] False by simp
      then have "l_entry lit (fields (last ?sl)) = Inr (last l_dat)"
        using False ne len by (simp add: last_conv_nth)
      with assms(3) lastsl have brk: "is_break (word (last l_dat))"
        by (simp add: carries_break_def)
      define ds where "ds = drop 1 l_dat"
      have dne: "ds \<noteq> []" using long by (simp add: ds_def)
      have dl: "last ds = last l_dat" using long by (simp add: ds_def)
      have "rev ds = last ds # rev (butlast ds)"
        using dne by (cases ds rule: rev_cases) auto
      then have r: "rev ds = last l_dat # rev (butlast ds)" by (simp only: dl)
      have "ld = l_walk (t (last l_dat)) (rev ds)" using ld by (simp add: ds_def)
      also have "\<dots> = l_walk (t (last l_dat)) (last l_dat # rev (butlast ds))"
        by (simp only: r)
      also have "\<dots> = [t (last l_dat) - t (last l_dat)]" using brk by simp
      finally have "ld = [t (last l_dat) - t (last l_dat)]" .
      with l show ?thesis by simp
    qed
  qed
qed

subsection \<open>With a header row\<close>

text \<open>
  With a header row the reference position is rebased to the designated line, and the
  windows have their edges where the designated token has them.
\<close>

lemma get_context_header:
  "''#'' \<notin> set hdr \<Longrightarrow>
     get_context lit (hdr @ ''#'' # post) ref_pos span'
       = windows lit post (ref_pos - int (length hdr) - 1) span'"
  by (simp add: skip_header_def get_context_def index_py_first)

lemma nth_after_header:
  "length hdr < i \<Longrightarrow> (hdr @ x # post) ! i = post ! (i - length hdr - 1)"
  by (simp add: nth_append nth_Cons')

lemma with_header_span_zero:
  assumes "''#'' \<notin> set hdr" and "int (length hdr) < ref_pos"
    and "get_context lit (hdr @ ''#'' # post) ref_pos 0 = Inr (l, r)"
  shows "l = [] \<and> r = []"
  using assms(2,3) windows_span_zero [of "ref_pos - int (length hdr) - 1" lit post l r]
  by (simp add: get_context_header [OF assms(1)])

lemma with_header_first_token:
  assumes "''#'' \<notin> set hdr" and "0 \<le> span'"
    and "get_context lit (hdr @ ''#'' # post) (int (length hdr) + 1) span' = Inr (l, r)"
  shows "l = []"
  using assms(3) windows_first_token [OF assms(2), of lit post l r]
  by (simp add: get_context_header [OF assms(1)])

lemma with_header_last_token:
  assumes "''#'' \<notin> set hdr" and "post \<noteq> []"
    and "get_context lit (hdr @ ''#'' # post) (int (length (hdr @ ''#'' # post)) - 1) span'
           = Inr (l, r)"
  shows "r = []"
proof -
  have "int (length (hdr @ ''#'' # post)) - 1 - int (length hdr) - 1 = int (length post) - 1"
    by simp
  with assms(3) have "windows lit post (int (length post) - 1) span' = Inr (l, r)"
    by (simp only: get_context_header [OF assms(1)])
  from windows_last_token [OF assms(2) this] show ?thesis .
qed

lemma with_header_break_before:
  assumes "''#'' \<notin> set hdr" and "int (length hdr) + 1 < ref_pos"
    and "ref_pos < int (length (hdr @ ''#'' # post))"
    and "carries_break lit ((hdr @ ''#'' # post) ! (nat ref_pos - 1))"
    and "get_context lit (hdr @ ''#'' # post) ref_pos span' = Inr (l, r)"
  shows "l = []"
proof -
  define p where "p = ref_pos - int (length hdr) - 1"
  have p1: "1 \<le> p" and pn: "p \<le> int (length post)"
    using assms(2,3) by (simp_all add: p_def)
  have "nat ref_pos - 1 - length hdr - 1 = nat p - 1" and "length hdr < nat ref_pos - 1"
    using assms(2) by (simp_all add: p_def)
  with assms(4) have "carries_break lit (post ! (nat p - 1))"
    by (simp add: nth_after_header)
  moreover have "windows lit post p span' = Inr (l, r)"
    using assms(5) by (simp add: get_context_header [OF assms(1)] p_def)
  ultimately show ?thesis by (rule windows_break_before [OF p1 pn])
qed

lemma with_header_break_after:
  assumes "''#'' \<notin> set hdr" and "int (length hdr) < ref_pos"
    and "ref_pos + 1 < int (length (hdr @ ''#'' # post))"
    and "carries_break lit ((hdr @ ''#'' # post) ! (nat ref_pos + 1))"
    and "get_context lit (hdr @ ''#'' # post) ref_pos span' = Inr (l, r)"
  shows "r = []"
proof -
  define p where "p = ref_pos - int (length hdr) - 1"
  have p0: "0 \<le> p" and pn: "nat p + 1 < length post"
    using assms(2,3) by (simp_all add: p_def)
  have "nat ref_pos + 1 - length hdr - 1 = nat p + 1" and "length hdr < nat ref_pos + 1"
    using assms(2) by (simp_all add: p_def)
  with assms(4) have "carries_break lit (post ! (nat p + 1))"
    by (simp add: nth_after_header)
  moreover have "windows lit post p span' = Inr (l, r)"
    using assms(5) by (simp add: get_context_header [OF assms(1)] p_def)
  ultimately show ?thesis by (rule windows_break_after [OF p0 pn])
qed

section \<open>Claims\<close>

text \<open>
  C1. For every pair of lists of distances, \<open>get_speechrate\<close> returns
  \<open>(max left + max right) / (count left + count right)\<close> when both lists are non-empty,
  \<open>max right / count right\<close> when only the right one is non-empty,
  \<open>max left / count left\<close> when only the left one is non-empty, and \<^verbatim>\<open>None\<close> (a value,
  neither zero nor an exception) when both are empty.
\<close>

theorem get_speechrate_cases:
  "get_speechrate l_dist r_dist =
     (if l_dist \<noteq> [] \<and> r_dist \<noteq> []
      then Inr (Some ((Max (set l_dist) + Max (set r_dist))
                        / real (length l_dist + length r_dist)))
      else if r_dist \<noteq> [] then Inr (Some (Max (set r_dist) / real (length r_dist)))
      else if l_dist \<noteq> [] then Inr (Some (Max (set l_dist) / real (length l_dist)))
      else Inr None)"
  by (simp add: get_speechrate_def max_py_nonempty bind_e_def div_py_def)

theorem get_speechrate_cases_witness:
  "get_speechrate [1, 3] [2, 5] = Inr (Some ((3 + 5) / 4))
   \<and> get_speechrate [] [1, 2, 4] = Inr (Some (4 / 3))
   \<and> get_speechrate [2, 3] [] = Inr (Some (3 / 2))
   \<and> get_speechrate [] [] = Inr None"
  using get_speechrate_cases [of "[1, 3]" "[2, 5]"] get_speechrate_cases [of "[]" "[1, 2, 4]"]
    get_speechrate_cases [of "[2, 3]" "[]"] get_speechrate_cases [of "[]" "[]"]
  by simp

text \<open>
  C2, as the code has it. When \<open>lines\<close> has an element equal to \<^verbatim>\<open>"#"\<close> (or, when it has
  none, one equal to \<^verbatim>\<open>"#\n"\<close>), every line up to and including the first such element is
  dropped and \<open>ref_pos\<close> is reduced by that element's position plus 1; the windows are then
  those of the remaining lines around the reduced position. With the row at position 2,
  five lines after it and \<open>ref_pos = 4\<close>, the windows are those of the five lines around
  position 1.
\<close>

theorem header_normalization:
  "(''#'' \<notin> set hdr \<longrightarrow>
      skip_header (hdr @ ''#'' # post) ref_pos = (post, ref_pos - int (length hdr) - 1)
      \<and> get_context lit (hdr @ ''#'' # post) ref_pos span'
          = windows lit post (ref_pos - int (length hdr) - 1) span')
   \<and> (''#'' \<notin> set (hdr @ post) \<and> [CHR ''#'', CHR 0x0A] \<notin> set hdr \<longrightarrow>
      skip_header (hdr @ [CHR ''#'', CHR 0x0A] # post) ref_pos
        = (post, ref_pos - int (length hdr) - 1)
      \<and> get_context lit (hdr @ [CHR ''#'', CHR 0x0A] # post) ref_pos span'
          = windows lit post (ref_pos - int (length hdr) - 1) span')"
  by (simp add: skip_header_def get_context_def index_py_first)

theorem header_normalization_witness:
  "''#'' \<notin> set [''h0'', ''h1'']
   \<and> skip_header
         ([''h0'', ''h1''] @ ''#'' # [''0.10 1 a'', ''0.50 1 b'', ''0.90 1 c'', ''1.30 1 d'', ''1.80 1 e'']) 4
       = ([''0.10 1 a'', ''0.50 1 b'', ''0.90 1 c'', ''1.30 1 d'', ''1.80 1 e''], 1)
   \<and> get_context decimal
         ([''h0'', ''h1''] @ ''#'' # [''0.10 1 a'', ''0.50 1 b'', ''0.90 1 c'', ''1.30 1 d'', ''1.80 1 e'']) 4 5
       = windows decimal [''0.10 1 a'', ''0.50 1 b'', ''0.90 1 c'', ''1.30 1 d'', ''1.80 1 e''] 1 5
   \<and> ''#'' \<notin> set ([''h0''] @ [''0.10 1 a'', ''0.50 1 b''])
   \<and> [CHR ''#'', CHR 0x0A] \<notin> set [''h0'']
   \<and> skip_header ([''h0''] @ [CHR ''#'', CHR 0x0A] # [''0.10 1 a'', ''0.50 1 b'']) 2
       = ([''0.10 1 a'', ''0.50 1 b''], 0)
   \<and> get_context decimal ([''h0''] @ [CHR ''#'', CHR 0x0A] # [''0.10 1 a'', ''0.50 1 b'']) 2 5
       = windows decimal [''0.10 1 a'', ''0.50 1 b''] 0 5"
  using
    header_normalization [of "[''h0'', ''h1'']"
      "[''0.10 1 a'', ''0.50 1 b'', ''0.90 1 c'', ''1.30 1 d'', ''1.80 1 e'']" 4 decimal 5]
    header_normalization [of "[''h0'']" "[''0.10 1 a'', ''0.50 1 b'']" 2 decimal 5]
  by simp

text \<open>
  C2 as stated fails: the row is compared with \<^verbatim>\<open>"#"\<close> and \<^verbatim>\<open>"#\n"\<close> as it is, not
  trimmed. A row \<^verbatim>\<open>"#\r\n"\<close>, whose trimmed content is \<^verbatim>\<open>"#"\<close>, is not taken for the
  header: no line is dropped.
\<close>

theorem header_row_not_trimmed_counterexample:
  "strip [CHR ''#'', CHR 0x0D, CHR 0x0A] = ''#''
   \<and> skip_header [''h0'', [CHR ''#'', CHR 0x0D, CHR 0x0A], ''0.50 1 a'', ''0.90 1 b''] 3
       = ([''h0'', [CHR ''#'', CHR 0x0D, CHR 0x0A], ''0.50 1 a'', ''0.90 1 b''], 2)"
  by code_simp

text \<open>
  C3 as stated fails: the label is element 1 of \<^verbatim>\<open>trans.split(" ", 2)\<close>, so a line needs
  a field between the time and the label, and the lines of the scenario raise IndexError.
\<close>

theorem scenario_counterexample:
  "get_context decimal
     [''0.10 <SIL>'', ''0.50 the'', ''0.90 cat'', ''1.30 sat'', ''1.80 <SIL>''] 3 5
   = Inl IndexError"
  by code_simp

text \<open>
  C3, as the code has it. With lines of three fields after a header row, the reference
  token \<open>sat\<close> at position 4 and span 5, the left list is \<open>[0.90 - 0.50]\<close> (the start time
  of \<open>sat\<close> is the end time of \<open>cat\<close>; the first line of the slice is never walked), the
  right list is empty (the next token is a break), and the rate is \<open>0.40 / 1\<close>.
\<close>

theorem scenario_three_fields:
  "get_context decimal
     [''#'', ''0.10 121 <SIL>'', ''0.50 122 the'', ''0.90 122 cat'', ''1.30 122 sat'',
      ''1.80 121 <SIL>''] 4 5
   = Inr ([2 / 5], [])
   \<and> get_speechrate [2 / 5] [] = Inr (Some (2 / 5))"
  by code_simp

text \<open>
  C4. The code at an input without header: the reference token is \<open>lines[4]\<close>, preceded
  by a break, yet the left list is not empty; and the reference token \<open>lines[1]\<close> is
  followed by a break, yet the right list is not empty. Without a header row \<open>header_pos\<close>
  is 0 and the reference position is still reduced by \<open>header_pos + 1\<close>, so that the token
  before the one designated is taken for the reference token.
\<close>

theorem break_neighbour_headerless:
  "is_break ''<SIL>''
   \<and> get_context decimal
        [''0.10 1 a'', ''0.50 1 b'', ''0.90 1 c'', ''1.30 1 <SIL>'', ''1.80 1 sat''] 4 5
       = Inr ([2 / 5], [1 / 2])
   \<and> get_context decimal [''0.50 1 a'', ''0.90 1 sat'', ''1.30 1 <SIL>''] 1 5
       = Inr ([], [2 / 5])"
  by code_simp

text \<open>
  C5. For every valid input (a valid reference position, \<open>0 \<le> span\<close>) on which
  \<open>get_context\<close> returns, the left list and the right list have at most \<open>span\<close>
  elements each.
\<close>

theorem context_lengths_bounded:
  assumes "0 \<le> span'" and "valid_ref lines ref_pos"
    and "get_context lit lines ref_pos span' = Inr (left, right)"
  shows "int (length left) \<le> span' \<and> int (length right) \<le> span'"
  using windows_length [OF assms(1) valid_ref_rebased [OF assms(2)]] assms(3)
  by (simp add: get_context_windows)

theorem context_lengths_bounded_witness:
  "(0::int) \<le> 1
   \<and> valid_ref [''#'', ''0.10 1 a'', ''0.50 1 b'', ''0.90 1 c'', ''1.30 1 d'', ''1.80 1 e''] 4
   \<and> get_context decimal
         [''#'', ''0.10 1 a'', ''0.50 1 b'', ''0.90 1 c'', ''1.30 1 d'', ''1.80 1 e''] 4 1
       = Inr ([2 / 5], [1 / 2])
   \<and> int (length [2 / 5 :: real]) \<le> 1 \<and> int (length [1 / 2 :: real]) \<le> 1"
proof -
  have v: "valid_ref [''#'', ''0.10 1 a'', ''0.50 1 b'', ''0.90 1 c'', ''1.30 1 d'', ''1.80 1 e''] 4"
    by code_simp
  have g: "get_context decimal
         [''#'', ''0.10 1 a'', ''0.50 1 b'', ''0.90 1 c'', ''1.30 1 d'', ''1.80 1 e''] 4 1
       = Inr ([2 / 5], [1 / 2])"
    by code_simp
  have s: "(0::int) \<le> 1" by simp
  from context_lengths_bounded [OF s v g] v g show ?thesis by simp
qed



text \<open>
  C7. The code at an input without header: with \<open>ref_pos = 0\<close>, the very first token,
  the left list is not empty; with \<open>ref_pos\<close> at the very last token, the right list is
  not empty.
\<close>

theorem boundary_headerless:
  "get_context decimal [''0.10 1 a'', ''0.50 1 b'', ''0.90 1 c'', ''1.30 1 d''] 0 4
     = Inr ([2 / 5], [])
   \<and> get_context decimal [''0.50 1 a'', ''0.90 1 b''] 1 1 = Inr ([], [2 / 5])"
  by code_simp







text \<open>
  C10. The code at an input without header, with well-formed lines, the valid reference
  position 0 and span 0: IndexError, not two empty lists.
\<close>

theorem span_zero_headerless:
  "list_all (well_formed decimal) [''0.50 1 a'', ''0.90 1 b'']
   \<and> valid_ref [''0.50 1 a'', ''0.90 1 b''] 0
   \<and> get_context decimal [''0.50 1 a'', ''0.90 1 b''] 0 0 = Inl IndexError"
  by code_simp

end
